theory Spec2Isabelle
  imports
    Complex_Main
    "HOL-Library.Char_ord"
    "HOL-Library.List_Lexorder"
    "HOL-Library.Product_Lexorder"
    "HOL-Library.Multiset"
begin

section \<open>Feature extraction pipeline of extract\_features.py\<close>

text \<open>
  A shallow embedding of \<^verbatim>\<open>extract_features.py\<close>: the resolution of directories into
  labelled images, the samplers, the dispatch of the per-image extraction and the
  HDF5 archive written by \<^verbatim>\<open>save_features\<close> and read by \<^verbatim>\<open>read_features\<close>.
  Exceptions are values of the type \<open>error\<close>; a function that may raise returns
  \<open>error + 'a\<close> with \<open>Inl\<close> for the exception. Python names starting with an
  underscore lose it (\<^verbatim>\<open>_sample_uniform\<close> is \<open>sample_uniform\<close>).
\<close>

subsection \<open>Exceptions\<close>

text \<open>
  \<open>DuplicateImage fname label\<close> is the \<^verbatim>\<open>ValueError("more than one {!r} with label {!r}"
  .format(fname, label))\<close> of the resolution loop; every other \<^verbatim>\<open>ValueError\<close> is
  \<open>ValueError\<close>. \<open>Raised n\<close> stands for an exception of the external decoding, resizing
  and descriptor routines.
\<close>

datatype error =
    IndexError
  | DuplicateImage string string
  | KeyError string
  | ValueError
  | AssertionError
  | ImportError
  | UnboundLocalError
  | TypeError
  | AttributeError
  | OSError
  | Raised nat

subsection \<open>Strings and sequences of Python\<close>

text \<open>\<^verbatim>\<open>s.rsplit('.', 1)\<close>: one element when \<open>s\<close> has no dot, otherwise the text
  before the last dot and the text after it.\<close>

definition rsplit_dot :: "string \<Rightarrow> string list" where
  "rsplit_dot s =
     (if CHR ''.'' \<in> set s
      then (let suf = rev (takeWhile (\<lambda>c. c \<noteq> CHR ''.'') (rev s))
            in [take (length s - length suf - 1) s, suf])
      else [s])"

text \<open>\<^verbatim>\<open>xs[i]\<close>: a negative index counts from the end, an index out of range
  raises.\<close>

definition py_getitem :: "'a list \<Rightarrow> int \<Rightarrow> error + 'a" where
  "py_getitem xs i =
     (if 0 \<le> i \<and> i < int (length xs) then Inr (xs ! nat i)
      else if i < 0 \<and> - int (length xs) \<le> i then Inr (xs ! nat (int (length xs) + i))
      else Inl IndexError)"

text \<open>A list comprehension or \<^verbatim>\<open>map\<close> whose function may raise: the elements are
  computed in order and the first exception ends the computation.\<close>

fun map_err :: "('a \<Rightarrow> error + 'b) \<Rightarrow> 'a list \<Rightarrow> error + 'b list" where
  "map_err f [] = Inr []"
| "map_err f (x # xs) =
     (case f x of
        Inl e \<Rightarrow> Inl e
      | Inr y \<Rightarrow> (case map_err f xs of Inl e \<Rightarrow> Inl e | Inr ys \<Rightarrow> Inr (y # ys)))"

text \<open>\<^verbatim>\<open>str.lower\<close> on the ASCII letters.\<close>

definition lower_char :: "char \<Rightarrow> char" where
  "lower_char c =
     (let n = (of_char c :: nat) in if 65 \<le> n \<and> n \<le> 90 then char_of (n + 32) else c)"

definition lower :: "string \<Rightarrow> string" where
  "lower s = map lower_char s"

text \<open>\<^verbatim>\<open>lst[:n]\<close>: a negative \<open>n\<close> counts from the end.\<close>

definition slice_to :: "'a list \<Rightarrow> int \<Rightarrow> 'a list" where
  "slice_to lst n = (if n < 0 then take (nat (int (length lst) + n)) lst else take (nat n) lst)"

text \<open>\<^verbatim>\<open>os.path.join(a, b)\<close> of posixpath, two components.\<close>

definition path_join :: "string \<Rightarrow> string \<Rightarrow> string" where
  "path_join a b =
     (if b \<noteq> [] \<and> hd b = CHR ''/'' then b
      else if a = [] \<or> last a = CHR ''/'' then a @ b
      else a @ ''/'' @ b)"

text \<open>A \<^verbatim>\<open>dict\<close> is an association list in iteration order, its keys distinct.
  \<^verbatim>\<open>dict(pairs)\<close> stores the pairs one after the other: a key seen again keeps its
  place and takes the new value.\<close>

fun dict_set :: "'k \<Rightarrow> 'v \<Rightarrow> ('k \<times> 'v) list \<Rightarrow> ('k \<times> 'v) list" where
  "dict_set k v [] = [(k, v)]"
| "dict_set k v ((k', v') # m) = (if k = k' then (k, v) # m else (k', v') # dict_set k v m)"

definition py_dict :: "('k \<times> 'v) list \<Rightarrow> ('k \<times> 'v) list" where
  "py_dict ps = foldl (\<lambda>m (k, v). dict_set k v m) [] ps"

text \<open>\<^verbatim>\<open>d[k].append(v)\<close> on a \<^verbatim>\<open>defaultdict(list)\<close>.\<close>

fun dd_append :: "'k \<Rightarrow> 'v \<Rightarrow> ('k \<times> 'v list) list \<Rightarrow> ('k \<times> 'v list) list" where
  "dd_append k v [] = [(k, [v])]"
| "dd_append k v ((k', vs) # m) =
     (if k = k' then (k', vs @ [v]) # m else (k', vs) # dd_append k v m)"

subsection \<open>Resolution of directories into labelled images\<close>

text \<open>The directory specification: a mapping from directory to label (anything with
  \<^verbatim>\<open>items\<close>), or an iterable of directory names.\<close>

datatype dirs_spec = DirsDict "(string \<times> string) list" | DirsIter "string list"

text \<open>Lines 134-135: an iterable becomes the dict that labels each directory with
  its own name.\<close>

fun dirs_items :: "dirs_spec \<Rightarrow> (string \<times> string) list" where
  "dirs_items (DirsDict m) = m"
| "dirs_items (DirsIter ds) = py_dict (map (\<lambda>dirname. (dirname, dirname)) ds)"

text \<open>The two dictionaries of the loop: \<open>ims_by_label\<close>, a \<^verbatim>\<open>defaultdict(list)\<close> from
  label to (dirname, fname) pairs, and \<open>seen_names\<close>, a \<^verbatim>\<open>defaultdict(set)\<close>.\<close>

record resolved =
  ims_by_label :: "(string \<times> (string \<times> string) list) list"
  seen_names :: "string \<Rightarrow> string set"

definition resolved_init :: resolved where
  "resolved_init = \<lparr>ims_by_label = [], seen_names = (\<lambda>_. {})\<rparr>"

definition DEFAULT_EXTENSIONS :: "string set" where
  "DEFAULT_EXTENSIONS = {''jpg'', ''png'', ''bmp''}"

text \<open>Lines 141-147, the loop over the entries of one directory.\<close>

fun add_files ::
  "string set \<Rightarrow> string \<Rightarrow> string \<Rightarrow> string list \<Rightarrow> resolved \<Rightarrow> error + resolved" where
  "add_files extensions dirname label [] st = Inr st"
| "add_files extensions dirname label (fname # rest) st =
     (case py_getitem (rsplit_dot fname) 1 of
        Inl e \<Rightarrow> Inl e
      | Inr ext \<Rightarrow>
          if lower ext \<in> extensions then
            if fname \<in> seen_names st label then Inl (DuplicateImage fname label)
            else add_files extensions dirname label rest
                   \<lparr>ims_by_label = dd_append label (dirname, fname) (ims_by_label st),
                    seen_names = (seen_names st)(label := insert fname (seen_names st label))\<rparr>
          else add_files extensions dirname label rest st)"

text \<open>Lines 140-147, the loop over the (dirname, label) items; \<open>listdir\<close> is
  \<^verbatim>\<open>os.listdir\<close>, \<open>None\<close> where it raises.\<close>

fun scan_dirs ::
  "(string \<Rightarrow> string list option) \<Rightarrow> string set \<Rightarrow> (string \<times> string) list \<Rightarrow> resolved
     \<Rightarrow> error + resolved" where
  "scan_dirs listdir extensions [] st = Inr st"
| "scan_dirs listdir extensions ((dirname, label) # ds) st =
     (case listdir dirname of
        None \<Rightarrow> Inl OSError
      | Some fnames \<Rightarrow>
          (case add_files extensions dirname label fnames st of
             Inl e \<Rightarrow> Inl e
           | Inr st' \<Rightarrow> scan_dirs listdir extensions ds st'))"

definition resolve ::
  "(string \<Rightarrow> string list option) \<Rightarrow> string set \<Rightarrow> dirs_spec \<Rightarrow> error + resolved" where
  "resolve listdir extensions dirs = scan_dirs listdir extensions (dirs_items dirs) resolved_init"

text \<open>The (label, directory, filename) records held by a resolved state.\<close>

definition records :: "resolved \<Rightarrow> (string \<times> string \<times> string) list" where
  "records st =
     concat (map (\<lambda>(label, ims). map (\<lambda>(dirname, fname). (label, dirname, fname)) ims)
               (ims_by_label st))"

text \<open>An entry qualifies when the text after its last dot, in lower case, is an
  allowed extension.\<close>

definition qualifies :: "string set \<Rightarrow> string \<Rightarrow> bool" where
  "qualifies extensions fname =
     (CHR ''.'' \<in> set fname \<and> lower (rsplit_dot fname ! 1) \<in> extensions)"

subsection \<open>The numpy operations of the uniform sampler\<close>

text \<open>Arrays of floats are lists of rationals. \<^verbatim>\<open>np.linspace(start, stop, num)\<close>
  raises on a negative \<open>num\<close>; \<^verbatim>\<open>np.round\<close> rounds a half to the even neighbour;
  \<^verbatim>\<open>np.diff\<close> takes the differences of neighbours.\<close>

definition linspace :: "rat \<Rightarrow> rat \<Rightarrow> int \<Rightarrow> error + rat list" where
  "linspace start stop num =
     (if num < 0 then Inl ValueError
      else if num = 1 then Inr [start]
      else Inr (map (\<lambda>k. start + of_nat k * ((stop - start) / of_int (num - 1))) [0..<nat num]))"

definition np_round :: "rat \<Rightarrow> rat" where
  "np_round q =
     (let f = \<lfloor>q\<rfloor>; d = q - of_int f
      in of_int (if d < 1 / 2 then f else if 1 / 2 < d then f + 1
                 else if even f then f else f + 1))"

definition np_diff :: "rat list \<Rightarrow> rat list" where
  "np_diff a = map (\<lambda>(x, y). y - x) (zip a (tl a))"

text \<open>The truth value of a boolean array, as \<^verbatim>\<open>assert\<close> and \<^verbatim>\<open>if\<close> take it: an
  empty array is false, an array of one element is that element, and an array of
  more than one element raises \<^verbatim>\<open>ValueError\<close> (its truth value is ambiguous).\<close>

fun array_bool :: "bool list \<Rightarrow> error + bool" where
  "array_bool [] = Inr False"
| "array_bool [b] = Inr b"
| "array_bool (b # c # bs) = Inl ValueError"

subsection \<open>Samplers\<close>

text \<open>Lines 96-101.\<close>

definition sample_uniform :: "'a list \<Rightarrow> int \<Rightarrow> error + 'a list" where
  "sample_uniform lst n =
     (if int (length lst) \<le> n then Inr lst
      else
        (case linspace 0 (of_int (int (length lst) - 1)) n of
           Inl e \<Rightarrow> Inl e
         | Inr pts \<Rightarrow>
             (let indices = map np_round pts in
              (case array_bool (map (\<lambda>d. 1 \<le> d) (np_diff indices)) of
                 Inl e \<Rightarrow> Inl e
               | Inr ok \<Rightarrow>
                   if \<not> ok then Inl AssertionError
                   else map_err (\<lambda>i. py_getitem lst \<lfloor>i\<rfloor>) indices))))"

text \<open>\<^verbatim>\<open>random.sample(lst, k)\<close> raises on a negative \<open>k\<close>; the elements it draws are
  given by \<open>rnd\<close>, the state of the generator.\<close>

definition random_sample :: "('a list \<Rightarrow> nat \<Rightarrow> 'a list) \<Rightarrow> 'a list \<Rightarrow> int \<Rightarrow> error + 'a list" where
  "random_sample rnd lst k = (if k < 0 \<or> int (length lst) < k then Inl ValueError else Inr (rnd lst (nat k)))"

text \<open>Lines 103-107, the table of samplers by name.\<close>

definition SAMPLERS ::
  "('a list \<Rightarrow> nat \<Rightarrow> 'a list) \<Rightarrow> (string \<times> ('a list \<Rightarrow> int \<Rightarrow> error + 'a list)) list" where
  "SAMPLERS rnd =
     [(''first'', \<lambda>lst n. Inr (slice_to lst n)),
      (''random'', \<lambda>lst n. random_sample rnd lst (min n (int (length lst)))),
      (''uniform'', sample_uniform)]"

text \<open>Line 150: without a cap the sampler is the identity and the table is not
  consulted; with a cap an unknown name raises \<^verbatim>\<open>KeyError\<close>.\<close>

definition choose_sample ::
  "('a list \<Rightarrow> nat \<Rightarrow> 'a list) \<Rightarrow> int option \<Rightarrow> string \<Rightarrow> error + ('a list \<Rightarrow> error + 'a list)" where
  "choose_sample rnd img_per_cla sampler =
     (case img_per_cla of
        None \<Rightarrow> Inr (\<lambda>x. Inr x)
      | Some n \<Rightarrow>
          (case map_of (SAMPLERS rnd) sampler of
             None \<Rightarrow> Inl (KeyError sampler)
           | Some s \<Rightarrow> Inr (\<lambda>x. s x n)))"

text \<open>Lines 151-155: per label, in the iteration order of \<open>ims_by_label\<close>, the
  sample of the sorted (dirname, fname) pairs; \<^verbatim>\<open>zip(*[...])\<close> of no triple at all
  cannot be unpacked into three names.\<close>

definition sampled_triples ::
  "((string \<times> string) list \<Rightarrow> error + (string \<times> string) list) \<Rightarrow> resolved
     \<Rightarrow> error + (string \<times> string \<times> string) list" where
  "sampled_triples sample st =
     (case map_err (\<lambda>(label, images).
               (case sample (sort images) of
                  Inl e \<Rightarrow> Inl e
                | Inr chosen \<Rightarrow>
                    Inr (map (\<lambda>(dirname, fname). (label, fname, path_join dirname fname)) chosen)))
             (ims_by_label st) of
        Inl e \<Rightarrow> Inl e
      | Inr tss \<Rightarrow> Inr (concat tss))"

definition unzip3 :: "('a \<times> 'b \<times> 'c) list \<Rightarrow> error + ('a list \<times> 'b list \<times> 'c list)" where
  "unzip3 ts =
     (if ts = [] then Inl ValueError
      else Inr (map fst ts, map (fst \<circ> snd) ts, map (snd \<circ> snd) ts))"

subsection \<open>Choice of the decoding backend\<close>

definition IMREAD_MODES :: "string list" where
  "IMREAD_MODES =
     [''skimage-pil'', ''skimage-qt'', ''skimage-gdal'', ''cv2'', ''matplotlib'',
      ''skimage-freeimage'']"

definition startswith :: "string \<Rightarrow> string \<Rightarrow> bool" where
  "startswith s pre = (take (length pre) s = pre)"

text \<open>Lines 50-76. \<open>importable mode\<close> says that the imports of the branch of \<open>mode\<close>
  succeed; an \<^verbatim>\<open>ImportError\<close> moves on to the next mode. A mode that matches no branch
  reaches \<^verbatim>\<open>return mode, imread\<close> with \<^verbatim>\<open>imread\<close> unbound.\<close>

fun find_working_imread :: "(string \<Rightarrow> bool) \<Rightarrow> string list \<Rightarrow> error + string" where
  "find_working_imread importable [] = Inl ImportError"
| "find_working_imread importable (mode # modes) =
     (if startswith mode ''skimage-'' \<or> mode = ''cv2'' \<or> mode = ''matplotlib'' then
        if importable mode then Inr mode else find_working_imread importable modes
      else Inl UnboundLocalError)"

subsection \<open>The environment of a run\<close>

text \<open>What the program takes from outside: the directory listings, the random
  generator, the number of processor cores, which backends import, \<open>race\<close>, which
  says which of several failing tasks of a pool is the first to report, and
  \<open>imread_get_features mode filename\<close>: the decoding of the file by the backend
  \<open>mode\<close>, the optional resizing and \<^verbatim>\<open>get_features\<close> on the image with the keyword
  arguments of the run (lines 81-93), giving its frames and descriptors.\<close>

record ('f, 'd) env =
  listdir :: "string \<Rightarrow> string list option"
  rnd :: "(string \<times> string) list \<Rightarrow> nat \<Rightarrow> (string \<times> string) list"
  cpu_count :: nat
  importable :: "string \<Rightarrow> bool"
  race :: nat
  imread_get_features :: "string \<Rightarrow> string \<Rightarrow> error + ('f \<times> 'd)"

text \<open>Lines 79-93: the backend is looked up again from the mode given, then the
  image is decoded and described.\<close>

definition load_features :: "('f, 'd) env \<Rightarrow> string list \<Rightarrow> string \<Rightarrow> error + ('f \<times> 'd)" where
  "load_features E imread_mode filename =
     (case find_working_imread (importable E) imread_mode of
        Inl e \<Rightarrow> Inl e
      | Inr mode \<Rightarrow> imread_get_features E mode filename)"

subsection \<open>Dispatch\<close>

text \<open>Modelled from the spec: \<^verbatim>\<open>strict_map\<close> of the module \<^verbatim>\<open>utils\<close>, which is not among
  the sources: strictly sequential, it keeps the order of the input and surfaces
  the first exception at once.\<close>

definition strict_map :: "('a \<Rightarrow> error + 'b) \<Rightarrow> 'a list \<Rightarrow> error + 'b list" where
  "strict_map f xs = map_err f xs"

text \<open>\<^verbatim>\<open>Pool.map\<close> of \<^verbatim>\<open>multiprocessing\<close> with \<open>n\<close> workers: the input is cut into chunks
  of \<open>ceil(len / (4 n))\<close> elements, each chunk is a task that a worker maps on its
  own, stopping at its first exception, and the results of the tasks are put
  together by the position of their chunk, whatever the order the workers finish
  in. When tasks fail, the exception raised to the caller is that of the failing
  task that reports first, which the scheduling decides (\<open>turn\<close>).\<close>

definition chunks_of :: "nat \<Rightarrow> 'a list \<Rightarrow> 'a list list" where
  "chunks_of k xs = map (\<lambda>i. take k (drop (i * k) xs)) [0..<(length xs + k - 1) div k]"

definition pool_chunksize :: "nat \<Rightarrow> nat \<Rightarrow> nat" where
  "pool_chunksize n len = len div (n * 4) + (if len mod (n * 4) = 0 then 0 else 1)"

fun task_errors :: "(error + 'b) list \<Rightarrow> error list" where
  "task_errors [] = []"
| "task_errors (Inl e # rs) = e # task_errors rs"
| "task_errors (Inr ys # rs) = task_errors rs"

fun task_values :: "(error + 'b) list \<Rightarrow> 'b list" where
  "task_values [] = []"
| "task_values (Inl e # rs) = task_values rs"
| "task_values (Inr ys # rs) = ys # task_values rs"

definition pool_map :: "nat \<Rightarrow> nat \<Rightarrow> ('a \<Rightarrow> error + 'b) \<Rightarrow> 'a list \<Rightarrow> error + 'b list" where
  "pool_map n turn f xs =
     (let results = map (map_err f) (chunks_of (pool_chunksize n (length xs)) xs);
          failures = task_errors results
      in if failures = [] then Inr (concat (task_values results))
         else Inl (failures ! (turn mod length failures)))"

text \<open>The worker pools that are alive, each given by its number of workers.
  \<^verbatim>\<open>mp.Pool(processes)\<close> starts one: with \<^verbatim>\<open>None\<close> it has a worker per core, and a
  number below one raises. Nothing else in the program touches the pools.\<close>

record world =
  live_pools :: "nat list"

definition mp_Pool :: "nat \<Rightarrow> int option \<Rightarrow> world \<Rightarrow> (error + nat) \<times> world" where
  "mp_Pool cores processes w =
     (let n = (case processes of None \<Rightarrow> int cores | Some p \<Rightarrow> p)
      in if n < 1 then (Inl ValueError, w)
         else (Inr (nat n), w\<lparr>live_pools := live_pools w @ [nat n]\<rparr>))"

text \<open>The argument \<^verbatim>\<open>parallel\<close>: \<^verbatim>\<open>False\<close>, \<^verbatim>\<open>True\<close>, an integer, or an object with a
  \<^verbatim>\<open>map\<close> method, given by that method.\<close>

datatype ('a, 'b) parallel =
    PFalse
  | PTrue
  | PInt int
  | PPool "('a \<Rightarrow> error + 'b) \<Rightarrow> 'a list \<Rightarrow> error + 'b list"

text \<open>Lines 157-166: the choice of \<^verbatim>\<open>do_map\<close>.\<close>

definition choose_map ::
  "nat \<Rightarrow> nat \<Rightarrow> ('a, 'b) parallel \<Rightarrow> world
     \<Rightarrow> (error + (('a \<Rightarrow> error + 'b) \<Rightarrow> 'a list \<Rightarrow> error + 'b list)) \<times> world" where
  "choose_map cores turn par w =
     (case par of
        PPool m \<Rightarrow> (Inr m, w)
      | PFalse \<Rightarrow> (Inr strict_map, w)
      | PTrue \<Rightarrow>
          (case mp_Pool cores None w of
             (Inl e, w') \<Rightarrow> (Inl e, w')
           | (Inr pool, w') \<Rightarrow> (Inr (pool_map pool turn), w'))
      | PInt p \<Rightarrow>
          (case mp_Pool cores (Some p) w of
             (Inl e, w') \<Rightarrow> (Inl e, w')
           | (Inr pool, w') \<Rightarrow> (Inr (pool_map pool turn), w')))"

subsection \<open>extract\_features\<close>

record ('f, 'd) Features =
  labels :: "string list"
  names :: "string list"
  frames :: "'f list"
  features :: "'d list"

text \<open>Lines 149-155: the sampled images as labels, image names and paths.\<close>

definition select_paths ::
  "('f, 'd) env \<Rightarrow> dirs_spec \<Rightarrow> int option \<Rightarrow> string \<Rightarrow> string set
     \<Rightarrow> error + (string list \<times> string list \<times> string list)" where
  "select_paths E dirs img_per_cla sampler extensions =
     (case resolve (listdir E) extensions dirs of
        Inl e \<Rightarrow> Inl e
      | Inr st \<Rightarrow>
          (case choose_sample (rnd E) img_per_cla sampler of
             Inl e \<Rightarrow> Inl e
           | Inr sample \<Rightarrow>
               (case sampled_triples sample st of
                  Inl e \<Rightarrow> Inl e
                | Inr ts \<Rightarrow> unzip3 ts)))"

text \<open>Lines 168-174: the backend is fixed once, the images are loaded through
  \<^verbatim>\<open>do_map\<close>, and \<^verbatim>\<open>zip(*...)\<close> splits the results into frames and descriptors.\<close>

definition run_map ::
  "('f, 'd) env \<Rightarrow> string list
     \<Rightarrow> ((string \<Rightarrow> error + ('f \<times> 'd)) \<Rightarrow> string list \<Rightarrow> error + ('f \<times> 'd) list)
     \<Rightarrow> string list \<Rightarrow> error + ('f list \<times> 'd list)" where
  "run_map E imread_mode do_map paths =
     (case find_working_imread (importable E) imread_mode of
        Inl e \<Rightarrow> Inl e
      | Inr mode \<Rightarrow>
          (case do_map (load_features E [mode]) paths of
             Inl e \<Rightarrow> Inl e
           | Inr results \<Rightarrow>
               if results = [] then Inl ValueError
               else Inr (map fst results, map snd results)))"

text \<open>Lines 110-174. The result comes with the pools alive at the end.\<close>

definition extract_features ::
  "('f, 'd) env \<Rightarrow> dirs_spec \<Rightarrow> int option \<Rightarrow> string \<Rightarrow> string set \<Rightarrow> string list
     \<Rightarrow> (string, 'f \<times> 'd) parallel \<Rightarrow> world \<Rightarrow> (error + ('f, 'd) Features) \<times> world" where
  "extract_features E dirs img_per_cla sampler extensions imread_mode par w =
     (case select_paths E dirs img_per_cla sampler extensions of
        Inl e \<Rightarrow> (Inl e, w)
      | Inr (ls, ns, paths) \<Rightarrow>
          (case choose_map (cpu_count E) (race E) par w of
             (Inl e, w') \<Rightarrow> (Inl e, w')
           | (Inr do_map, w') \<Rightarrow>
               (case run_map E imread_mode do_map paths of
                  Inl e \<Rightarrow> (Inl e, w')
                | Inr (fs, ds) \<Rightarrow>
                    (Inr \<lparr>labels = ls, names = ns, frames = fs, features = ds\<rparr>, w'))))"

subsection \<open>The HDF5 container\<close>

text \<open>The file as \<^verbatim>\<open>h5py\<close> presents it: a tree of groups with datasets at the leaves,
  held as the list of its links, each the absolute path of an object (the names
  from the root down) with what is stored there. The root group is the empty
  path. A name given to \<^verbatim>\<open>h5py\<close> is a path: its components are separated by
  \<^verbatim>\<open>/\<close>, and empty components and \<^verbatim>\<open>.\<close> stand for the group itself. A name that
  starts with \<^verbatim>\<open>/\<close> is taken from the root, any other from the group it is given
  to (\<open>h5_resolve\<close>).\<close>

datatype 'a h5obj = H5Group | H5Dataset 'a

type_synonym 'a h5links = "(string list \<times> 'a h5obj) list"

record 'a h5file =
  links :: "'a h5links"
  attrs :: "(string \<times> string) list"

definition h5_empty :: "'a h5file" where
  "h5_empty = \<lparr>links = [], attrs = []\<rparr>"

fun split_slash :: "string \<Rightarrow> string list" where
  "split_slash [] = [[]]"
| "split_slash (c # cs) =
     (if c = CHR ''/'' then [] # split_slash cs
      else (case split_slash cs of [] \<Rightarrow> [[c]] | w # ws \<Rightarrow> (c # w) # ws))"

definition h5_path :: "string \<Rightarrow> string list" where
  "h5_path name = filter (\<lambda>c. c \<noteq> [] \<and> c \<noteq> ''.'') (split_slash name)"

definition h5_resolve :: "string list \<Rightarrow> string \<Rightarrow> string list" where
  "h5_resolve g name =
     (if name \<noteq> [] \<and> hd name = CHR ''/'' then h5_path name else g @ h5_path name)"

definition h5_lookup :: "'a h5links \<Rightarrow> string list \<Rightarrow> 'a h5obj option" where
  "h5_lookup f p = (if p = [] then Some H5Group else map_of f p)"

text \<open>The groups along a path, made where they are missing (\<^verbatim>\<open>h5py\<close> creates
  intermediate groups); a dataset on the way is an error.\<close>

fun make_groups :: "'a h5links \<Rightarrow> string list \<Rightarrow> string list \<Rightarrow> error + 'a h5links" where
  "make_groups f base [] = Inr f"
| "make_groups f base (c # cs) =
     (case h5_lookup f (base @ [c]) of
        None \<Rightarrow> make_groups (f @ [(base @ [c], H5Group)]) (base @ [c]) cs
      | Some H5Group \<Rightarrow> make_groups f (base @ [c]) cs
      | Some (H5Dataset v) \<Rightarrow> Inl ValueError)"

text \<open>\<^verbatim>\<open>g.create_group(name)\<close> for the group at \<open>g\<close>: a name that is already there
  raises. The new group is returned by its path.\<close>

definition create_group ::
  "'a h5links \<Rightarrow> string list \<Rightarrow> string \<Rightarrow> error + ('a h5links \<times> string list)" where
  "create_group f g name =
     (let p = h5_resolve g name in
      if h5_path name = [] \<or> h5_lookup f p \<noteq> None then Inl ValueError
      else (case make_groups f [] p of
              Inl e \<Rightarrow> Inl e
            | Inr f' \<Rightarrow> Inr (f', p)))"

text \<open>\<^verbatim>\<open>g.require_group(name)\<close>: the group of that name, created when the name is not
  there; an empty name raises \<^verbatim>\<open>ValueError\<close>, and an object of that name that is no
  group raises \<^verbatim>\<open>TypeError\<close>.\<close>

definition require_group ::
  "'a h5links \<Rightarrow> string list \<Rightarrow> string \<Rightarrow> error + ('a h5links \<times> string list)" where
  "require_group f g name =
     (if name = [] then Inl ValueError
      else
        (let p = h5_resolve g name in
         (case h5_lookup f p of
            None \<Rightarrow> create_group f g name
          | Some H5Group \<Rightarrow> Inr (f, p)
          | Some (H5Dataset v) \<Rightarrow> Inl TypeError)))"

text \<open>\<^verbatim>\<open>g[key] = array\<close> makes a dataset; a name that is already there raises.\<close>

definition set_item :: "'a h5links \<Rightarrow> string list \<Rightarrow> string \<Rightarrow> 'a \<Rightarrow> error + 'a h5links" where
  "set_item f g key v =
     (if h5_lookup f (g @ [key]) \<noteq> None then Inl ValueError
      else Inr (f @ [(g @ [key], H5Dataset v)]))"

text \<open>The members of a group, in the order of the name index.\<close>

definition h5_items :: "'a h5links \<Rightarrow> string list \<Rightarrow> (string \<times> 'a h5obj) list" where
  "h5_items f g =
     sort_key fst (map (\<lambda>(p, obj). (last p, obj)) (filter (\<lambda>(p, obj). p \<noteq> [] \<and> butlast p = g) f))"

subsection \<open>save\_features and read\_features\<close>

text \<open>\<^verbatim>\<open>izip(*features)\<close>: the four sequences side by side, as long as the shortest.\<close>

definition izip4 :: "('a, 'a) Features \<Rightarrow> (string \<times> string \<times> 'a \<times> 'a) list" where
  "izip4 F = zip (labels F) (zip (names F) (zip (frames F) (features F)))"

text \<open>Lines 309-311, one turn of the loop. The file is returned as the turn
  leaves it, with the exception when one is raised.\<close>

definition write_leaf ::
  "'a h5links \<Rightarrow> string \<times> string \<times> 'a \<times> 'a \<Rightarrow> 'a h5links \<times> error option" where
  "write_leaf f leaf =
     (case leaf of (label, name, fr, de) \<Rightarrow>
        (case require_group f [] label of
           Inl e \<Rightarrow> (f, Some e)
         | Inr (f1, lg) \<Rightarrow>
             (case create_group f1 lg name of
                Inl e \<Rightarrow> (f1, Some e)
              | Inr (f2, g) \<Rightarrow>
                  (case set_item f2 g ''frames'' fr of
                     Inl e \<Rightarrow> (f2, Some e)
                   | Inr f3 \<Rightarrow>
                       (case set_item f3 g ''features'' de of
                          Inl e \<Rightarrow> (f3, Some e)
                        | Inr f4 \<Rightarrow> (f4, None))))))"

fun write_leaves ::
  "'a h5links \<Rightarrow> (string \<times> string \<times> 'a \<times> 'a) list \<Rightarrow> 'a h5links \<times> error option" where
  "write_leaves f [] = (f, None)"
| "write_leaves f (leaf # rest) =
     (case write_leaf f leaf of
        (f', Some e) \<Rightarrow> (f', Some e)
      | (f', None) \<Rightarrow> write_leaves f' rest)"

text \<open>Lines 300-314. The file is opened as it is (\<^verbatim>\<open>h5py.File(filename)\<close> creates
  it when it is missing); the attributes are set after the leaves.\<close>

definition save_features ::
  "'a h5file \<Rightarrow> ('a, 'a) Features \<Rightarrow> (string \<times> string) list \<Rightarrow> 'a h5file \<times> error option" where
  "save_features file F kwattrs =
     (case write_leaves (links file) (izip4 F) of
        (f', Some e) \<Rightarrow> (file\<lparr>links := f'\<rparr>, Some e)
      | (f', None) \<Rightarrow>
          (\<lparr>links = f', attrs = foldl (\<lambda>m (k, v). dict_set k v m) (attrs file) kwattrs\<rparr>, None))"

text \<open>Lines 330-335 for the group \<open>g\<close> found under the name \<open>fname\<close> in the group of
  \<open>label\<close>: \<^verbatim>\<open>g["frames"][...]\<close> and the descriptors, converted when a dtype is
  asked for (\<open>astype\<close>). A missing member raises \<^verbatim>\<open>KeyError\<close>.\<close>

definition read_dataset :: "'a h5links \<Rightarrow> string list \<Rightarrow> 'a h5obj \<Rightarrow> string \<Rightarrow> error + 'a" where
  "read_dataset f p g key =
     (case g of
        H5Dataset v \<Rightarrow> Inl ValueError
      | H5Group \<Rightarrow>
          (case h5_lookup f (p @ [key]) of
             None \<Rightarrow> Inl (KeyError key)
           | Some H5Group \<Rightarrow> Inl TypeError
           | Some (H5Dataset v) \<Rightarrow> Inr v))"

definition read_leaf ::
  "'a h5links \<Rightarrow> ('a \<Rightarrow> 'a) option \<Rightarrow> string \<Rightarrow> string \<times> 'a h5obj
     \<Rightarrow> error + (string \<times> string \<times> 'a \<times> 'a)" where
  "read_leaf f features_dtype label item =
     (case item of (fname, g) \<Rightarrow>
        (case read_dataset f [label, fname] g ''frames'' of
           Inl e \<Rightarrow> Inl e
         | Inr fr \<Rightarrow>
             (case read_dataset f [label, fname] g ''features'' of
                Inl e \<Rightarrow> Inl e
              | Inr de \<Rightarrow>
                  Inr (label, fname, fr,
                       (case features_dtype of None \<Rightarrow> de | Some astype \<Rightarrow> astype de)))))"

text \<open>Lines 326-327: the members of the root, and the members of each; a dataset
  in the place of a label group has no items.\<close>

definition read_label ::
  "'a h5links \<Rightarrow> ('a \<Rightarrow> 'a) option \<Rightarrow> string \<times> 'a h5obj
     \<Rightarrow> error + (string \<times> string \<times> 'a \<times> 'a) list" where
  "read_label f features_dtype item =
     (case item of (label, label_g) \<Rightarrow>
        (case label_g of
           H5Dataset v \<Rightarrow> Inl AttributeError
         | H5Group \<Rightarrow> map_err (read_leaf f features_dtype label) (h5_items f [label])))"

text \<open>Lines 317-337.\<close>

definition read_features ::
  "'a h5file \<Rightarrow> bool \<Rightarrow> ('a \<Rightarrow> 'a) option
     \<Rightarrow> error + (('a, 'a) Features \<times> (string \<times> string) list option)" where
  "read_features file load_attrs features_dtype =
     (case map_err (read_label (links file) features_dtype) (h5_items (links file) []) of
        Inl e \<Rightarrow> Inl e
      | Inr lss \<Rightarrow>
          (let ls = concat lss;
               ret = \<lparr>labels = map fst ls, names = map (fst \<circ> snd) ls,
                      frames = map (fst \<circ> snd \<circ> snd) ls, features = map (snd \<circ> snd \<circ> snd) ls\<rparr>
           in Inr (ret, if load_attrs then Some (attrs file) else None)))"

subsection \<open>Notions used in the statements\<close>



text \<open>The identity of a leaf of the archive, a prefix of an archive, and the
  order of files in which every object of the first is the same object of the
  second.\<close>

definition leaf_key :: "string \<times> string \<times> 'a \<times> 'a \<Rightarrow> string \<times> string" where
  "leaf_key leaf = (fst leaf, fst (snd leaf))"

definition take_leaves :: "nat \<Rightarrow> ('a, 'a) Features \<Rightarrow> ('a, 'a) Features" where
  "take_leaves k F =
     \<lparr>labels = take k (labels F), names = take k (names F), frames = take k (frames F),
      features = take k (features F)\<rparr>"

definition h5_extends :: "'a h5links \<Rightarrow> 'a h5links \<Rightarrow> bool" where
  "h5_extends f f' = (\<forall>p obj. h5_lookup f p = Some obj \<longrightarrow> h5_lookup f' p = Some obj)"

text \<open>The path of the group of a leaf.\<close>

definition leaf_path :: "string \<times> string \<Rightarrow> string list" where
  "leaf_path k = h5_resolve (h5_resolve [] (fst k)) (snd k)"

text \<open>The elements of a list, each at the place of its first occurrence.\<close>

definition first_occurrences :: "'a list \<Rightarrow> 'a list" where
  "first_occurrences xs = rev (remdups (rev xs))"

text \<open>The entries of a directory (none where it cannot be listed), the qualifying
  entries of the items as (label, directory, filename) records in the order of the
  loop, and the identity of a record.\<close>

definition entries :: "(string \<Rightarrow> string list option) \<Rightarrow> string \<Rightarrow> string list" where
  "entries ld dirname = (case ld dirname of None \<Rightarrow> [] | Some fnames \<Rightarrow> fnames)"

definition qualifying ::
  "(string \<Rightarrow> string list option) \<Rightarrow> string set \<Rightarrow> (string \<times> string) list
     \<Rightarrow> (string \<times> string \<times> string) list" where
  "qualifying ld extensions items =
     concat (map (\<lambda>(dirname, label).
                map (\<lambda>fname. (label, dirname, fname)) (filter (qualifies extensions) (entries ld dirname)))
             items)"

definition identity :: "string \<times> string \<times> string \<Rightarrow> string \<times> string" where
  "identity r = (fst r, snd (snd r))"

text \<open>The invariant of the loop: \<open>seen_names\<close> holds the identities of the records.\<close>

definition seen_ok :: "resolved \<Rightarrow> bool" where
  "seen_ok st = (\<forall>label fname. fname \<in> seen_names st label \<longleftrightarrow> (label, fname) \<in> identity ` set (records st))"

text \<open>The images of a label all lie in one directory.\<close>

definition one_directory :: "(string \<times> string) list \<Rightarrow> bool" where
  "one_directory images = (\<forall>im\<in>set images. fst im = fst (hd images))"

subsection \<open>Example inputs\<close>

text \<open>Four directories: \<open>A\<close> holds a file without extension beside an image, \<open>B\<close>
  an image of the same name, \<open>a\<close> and \<open>b\<close> one image each.\<close>

definition ex_listdir :: "string \<Rightarrow> string list option" where
  "ex_listdir d =
     (if d = ''A'' then Some [''README'', ''x.jpg'']
      else if d = ''B'' then Some [''x.jpg'']
      else if d = ''a'' then Some [''z.jpg'']
      else if d = ''b'' then Some [''a.jpg'']
      else None)"

text \<open>An environment with two cores where only OpenCV imports and the image
  \<open>b/a.jpg\<close> cannot be decoded.\<close>

definition ex_env :: "(rat list list, rat list list) env" where
  "ex_env =
     \<lparr>listdir = ex_listdir, rnd = (\<lambda>lst k. take k lst), cpu_count = 2,
      importable = (\<lambda>mode. mode = ''cv2''), race = 0,
      imread_get_features = (\<lambda>mode filename.
        if filename = ''b/a.jpg'' then Inl (Raised 0) else Inr ([[0, 0, 3 / 2]], [[7, 255]]))\<rparr>"

definition ex_world :: world where
  "ex_world = \<lparr>live_pools = []\<rparr>"

text \<open>A directory of ten images, as a listing may give them, and the environment
  that lists it.\<close>

definition ex_listdir_ten :: "string \<Rightarrow> string list option" where
  "ex_listdir_ten d =
     (if d = ''L''
      then Some [''h.jpg'', ''c.jpg'', ''j.jpg'', ''a.jpg'', ''e.jpg'', ''b.jpg'', ''g.jpg'',
                 ''d.jpg'', ''i.jpg'', ''f.jpg'']
      else None)"

definition ex_env_ten :: "(rat list list, rat list list) env" where
  "ex_env_ten = ex_env\<lparr>listdir := ex_listdir_ten\<rparr>"

text \<open>An archive of one image whose label is the path of its directory.\<close>

definition ex_archive :: "(rat list list, rat list list) Features" where
  "ex_archive =
     \<lparr>labels = [''data/cat''], names = [''x.jpg''],
      frames = [[[10, 20, 3 / 2]]], features = [[[0, 12, 255]]]\<rparr>"

text \<open>An archive of three images in two labels, and one that names an image twice.\<close>

definition ex_archive3 :: "(rat list list, rat list list) Features" where
  "ex_archive3 =
     \<lparr>labels = [''b'', ''a'', ''a''], names = [''i3'', ''i1'', ''i2''],
      frames = [[[3]], [[1]], [[2]]], features = [[[30]], [[10]], [[20]]]\<rparr>"

definition ex_archive_dup :: "(rat list list, rat list list) Features" where
  "ex_archive_dup =
     \<lparr>labels = [''a'', ''b'', ''a''], names = [''i1'', ''i2'', ''i1''],
      frames = [[[3]], [[1]], [[2]]], features = [[[30]], [[10]], [[20]]]\<rparr>"

section \<open>Properties\<close>

subsection \<open>Entries without a dot\<close>

lemma rsplit_dot_no_dot: "CHR ''.'' \<notin> set fname \<Longrightarrow> rsplit_dot fname = [fname]"
  by (simp add: rsplit_dot_def)

lemma add_files_no_dot:
  "CHR ''.'' \<notin> set fname \<Longrightarrow>
     add_files extensions dirname label (fname # rest) st = Inl IndexError"
  by (simp add: rsplit_dot_no_dot py_getitem_def)

text \<open>
  C5. The claim: an entry whose extension is not allowed, also one with no dot at
  all, is left out and never makes the resolution fail. The code takes element 1
  of \<^verbatim>\<open>fname.rsplit('.', 1)\<close>, which does not exist for a name without a dot: the
  directory \<open>A\<close>, holding \<open>README\<close> and \<open>x.jpg\<close>, makes the resolution and the whole
  selection raise \<^verbatim>\<open>IndexError\<close>.
\<close>

theorem resolve_no_dot_IndexError:
  "resolve ex_listdir DEFAULT_EXTENSIONS (DirsIter [''A'']) = Inl IndexError
   \<and> select_paths ex_env (DirsIter [''A'']) None ''first'' DEFAULT_EXTENSIONS = Inl IndexError"
  by (simp add: select_paths_def resolve_def ex_env_def ex_listdir_def py_dict_def
      resolved_init_def py_getitem_def rsplit_dot_def)

text \<open>
  C4. The claim: the duplicate-image error is raised if and only if a (label,
  filename) identity occurs more than once among the directories of the label.
  The directories \<open>A\<close> and \<open>B\<close> both carry the label \<open>cat\<close> and both hold \<open>x.jpg\<close>,
  so the identity (\<open>cat\<close>, \<open>x.jpg\<close>) occurs twice; in either order of the two
  directories the resolution ends with \<^verbatim>\<open>IndexError\<close> on the entry \<open>README\<close> of \<open>A\<close>
  and the duplicate is not reported.
\<close>

theorem resolve_duplicate_hidden_by_IndexError:
  "resolve ex_listdir DEFAULT_EXTENSIONS (DirsDict [(''A'', ''cat''), (''B'', ''cat'')])
     = Inl IndexError
   \<and> resolve ex_listdir DEFAULT_EXTENSIONS (DirsDict [(''B'', ''cat''), (''A'', ''cat'')])
     = Inl IndexError"
  by (simp add: resolve_def ex_listdir_def resolved_init_def py_getitem_def rsplit_dot_def
      lower_def lower_char_def DEFAULT_EXTENSIONS_def)

subsection \<open>The uniform sampler\<close>

text \<open>What the sampler does with a cap below the length of the list: one sample
  fails the assertion on the empty array of differences, two samples are the
  first and the last element, three or more raise on the truth value of the
  array of differences.\<close>

lemma array_bool_two: "2 \<le> length bs \<Longrightarrow> array_bool bs = Inl ValueError"
  by (cases bs rule: array_bool.cases) auto

lemma length_np_diff: "length (np_diff a) = length a - 1"
  by (simp add: np_diff_def)

lemma sample_uniform_three_or_more:
  assumes "3 \<le> n" and "n < int (length lst)"
  shows "sample_uniform lst n = Inl ValueError"
proof -
  from assms obtain pts where l: "linspace 0 (of_int (int (length lst) - 1)) n = Inr pts"
    and len: "length pts = nat n"
    by (auto simp: linspace_def)
  have "2 \<le> length (map (\<lambda>d. 1 \<le> d) (np_diff (map np_round pts)))"
    using assms len by (simp add: length_np_diff)
  then have "array_bool (map (\<lambda>d. 1 \<le> d) (np_diff (map np_round pts))) = Inl ValueError"
    by (rule array_bool_two)
  with assms l show ?thesis
    by (simp add: sample_uniform_def Let_def)
qed

lemma np_round_of_int: "np_round (of_int k) = of_int k"
  by (simp add: np_round_def Let_def)

lemma sample_uniform_two:
  assumes "2 < length lst"
  shows "sample_uniform lst 2 = Inr [hd lst, last lst]"
proof -
  have pts: "linspace 0 (of_int (int (length lst) - 1)) 2 = Inr [0, of_int (int (length lst) - 1)]"
    by (simp add: linspace_def numeral_2_eq_2)
  have r0: "np_round 0 = 0" using np_round_of_int [of 0] by simp
  have idx: "map np_round [0, of_int (int (length lst) - 1)] = [0, of_int (int (length lst) - 1)]"
    by (simp only: list.map np_round_of_int r0)
  have ok: "array_bool (map (\<lambda>d. 1 \<le> d) (np_diff [0, of_int (int (length lst) - 1) :: rat])) = Inr True"
    using assms by (simp add: np_diff_def)
  have g0: "py_getitem lst 0 = Inr (hd lst)"
    using assms by (cases lst) (auto simp: py_getitem_def)
  have g1: "py_getitem lst (int (length lst) - 1) = Inr (last lst)"
    using assms by (auto simp: py_getitem_def last_conv_nth nat_diff_distrib)
  have fl: "\<lfloor>rat_of_int (int (length lst) - 1)\<rfloor> = int (length lst) - 1"
    by (rule floor_of_int)
  have not_le: "\<not> int (length lst) \<le> 2" using assms by simp
  show ?thesis
    by (simp only: sample_uniform_def not_le if_False pts sum.case Let_def idx ok simp_thms
        map_err.simps fl floor_zero g0 g1)
qed

lemma sample_uniform_one:
  assumes "1 < length lst"
  shows "sample_uniform lst 1 = Inl AssertionError"
  using assms by (simp add: sample_uniform_def linspace_def np_diff_def Let_def)

text \<open>
  C3. The claim: for a cap \<open>N\<close> of at most the length of the list the uniform
  sampler returns \<open>N\<close> items at strictly increasing, evenly spaced indices. The
  code asserts \<^verbatim>\<open>np.diff(indices) >= 1\<close>, an array: with three samples the array
  has two elements and its truth value raises \<^verbatim>\<open>ValueError\<close>, so five images
  and a cap of three give no sample at all.
\<close>

theorem sample_uniform_three_of_five:
  "sample_uniform [''a.jpg'', ''b.jpg'', ''c.jpg'', ''d.jpg'', ''e.jpg''] 3 = Inl ValueError"
  by code_simp

subsection \<open>Archive round trip\<close>

text \<open>An archive whose labels and names are plain names comes back sorted by label
  and name, with the attributes; the two images of the label \<open>a\<close> share one group.\<close>

lemma roundtrip_plain_example:
  "read_features (fst (save_features h5_empty ex_archive3 [(''args'', ''{}'')])) True None
     = Inr (\<lparr>labels = [''a'', ''a'', ''b''], names = [''i1'', ''i2'', ''i3''],
             frames = [[[1]], [[2]], [[3]]], features = [[[10]], [[20]], [[30]]]\<rparr>,
            Some [(''args'', ''{}'')])
   \<and> map fst (h5_items (links (fst (save_features h5_empty ex_archive3 []))) []) = [''a'', ''b'']
   \<and> map fst (h5_items (links (fst (save_features h5_empty ex_archive3 []))) [''a''])
       = [''i1'', ''i2'']"
  by code_simp

text \<open>
  C2. The claim: an archive with unique (label, name) pairs, saved and read back,
  is the same archive up to order. The archive \<open>ex_archive\<close> has the single label
  \<open>data/cat\<close>: \<^verbatim>\<open>require_group\<close> takes the label as a path and nests the
  group \<open>cat\<close> in the group \<open>data\<close>, so the write succeeds and \<^verbatim>\<open>read_features\<close>,
  which takes the members of the root for labels and their members for images,
  looks for the frames in the group \<open>cat\<close> and raises \<^verbatim>\<open>KeyError\<close>.
\<close>

theorem roundtrip_label_with_slash:
  "snd (save_features h5_empty ex_archive []) = None
   \<and> read_features (fst (save_features h5_empty ex_archive [])) False None
       = Inl (KeyError ''frames'')"
  by code_simp

subsection \<open>Dispatch keeps the order of the paths\<close>





















subsection \<open>Unknown sampler names\<close>

lemma SAMPLERS_unknown:
  "sampler \<notin> {''first'', ''random'', ''uniform''} \<Longrightarrow> map_of (SAMPLERS r) sampler = None"
  by (simp add: SAMPLERS_def)

text \<open>
  C7, the claim as stated: a call with an unknown sampler name fails whether or
  not a cap is set. Without a cap the name \<open>bogus\<close> is never looked up and the call
  returns the features of the image.
\<close>

theorem unknown_sampler_counterexample:
  "extract_features ex_env (DirsIter [''a'']) None ''bogus'' DEFAULT_EXTENSIONS IMREAD_MODES PFalse
     ex_world
   = (Inr \<lparr>labels = [''a''], names = [''z.jpg''], frames = [[[0, 0, 3 / 2]]],
           features = [[[7, 255]]]\<rparr>, ex_world)"
  by code_simp

text \<open>
  C7, amended. With a cap, a call with a sampler name that is none of \<open>first\<close>,
  \<open>random\<close>, \<open>uniform\<close> fails: with the error of the resolution when the
  resolution fails, otherwise with \<^verbatim>\<open>KeyError\<close> on the name, before any pool is
  started. Without a cap the name is not used: the call does what it does with
  the sampler \<open>first\<close>.
\<close>

theorem unknown_sampler:
  assumes "sampler \<notin> {''first'', ''random'', ''uniform''}"
  shows "extract_features E dirs (Some n) sampler extensions imread_mode par w
           = (Inl (case resolve (listdir E) extensions dirs of
                     Inl e \<Rightarrow> e | Inr st \<Rightarrow> KeyError sampler), w)
         \<and> extract_features E dirs None sampler extensions imread_mode par w
           = extract_features E dirs None ''first'' extensions imread_mode par w"
  using assms
  by (auto simp: extract_features_def select_paths_def choose_sample_def SAMPLERS_unknown
      split: sum.splits)

theorem unknown_sampler_witness:
  "extract_features ex_env (DirsIter [''a'']) (Some 3) ''bogus'' DEFAULT_EXTENSIONS IMREAD_MODES PTrue
     ex_world = (Inl (KeyError ''bogus''), ex_world)"
proof -
  have h: "''bogus'' \<notin> {''first'', ''random'', ''uniform''}" by simp
  have r: "(case resolve (listdir ex_env) DEFAULT_EXTENSIONS (DirsIter [''a'']) of
              Inl e \<Rightarrow> e | Inr st \<Rightarrow> KeyError ''bogus'') = KeyError ''bogus''"
    by code_simp
  from unknown_sampler [OF h, of ex_env "DirsIter [''a'']" 3 DEFAULT_EXTENSIONS IMREAD_MODES PTrue ex_world]
  show ?thesis by (simp only: r)
qed

subsection \<open>Worker pools\<close>



subsection \<open>The sampler first\<close>

text \<open>
  C6, the claim as stated: the sampler \<open>first\<close> returns the first \<open>N\<close> of the
  label's images in the order of their filenames. The label \<open>L\<close> has \<open>a.jpg\<close> in
  the directory \<open>b\<close> and \<open>z.jpg\<close> in the directory \<open>a\<close>; with a cap of one the
  smallest filename is \<open>a.jpg\<close>, and the call selects \<open>z.jpg\<close>.
\<close>

theorem first_sampler_counterexample:
  "select_paths ex_env (DirsDict [(''b'', ''L''), (''a'', ''L'')]) (Some 1) ''first''
     DEFAULT_EXTENSIONS = Inr ([''L''], [''z.jpg''], [''a/z.jpg''])
   \<and> take 1 (sort [''a.jpg'', ''z.jpg'']) = [''a.jpg'']"
  by code_simp

lemma sorted_Pair: "sorted (map (Pair d) ys) = sorted ys"
  by (induction ys) (auto simp: less_eq_prod_def)

lemma sort_same_dir:
  assumes "\<forall>im\<in>set images. fst im = d"
  shows "sort images = map (Pair d) (sort (map snd images))"
proof -
  have im: "images = map (Pair d) (map snd images)"
    using assms by (induction images) auto
  have "sorted (map (Pair d) (sort (map snd images)))"
    by (simp add: sorted_Pair)
  moreover have "mset (map (Pair d) (sort (map snd images))) = mset images"
  proof -
    have "mset (map (Pair d) (sort (map snd images))) = mset (map (Pair d) (map snd images))"
      by (simp add: multiset.map_comp)
    then show ?thesis by (simp only: im [symmetric])
  qed
  ultimately show ?thesis
    by (metis properties_for_sort)
qed

lemma map_err_total:
  "map_err (\<lambda>x. Inr (g x)) xs = Inr (map g xs)"
  by (induction xs) auto

lemma choose_sample_first:
  "choose_sample r (Some n) ''first'' = Inr (\<lambda>lst. Inr (slice_to lst n))"
  by (simp add: choose_sample_def SAMPLERS_def)

lemma map_err_labels:
  "map_err (\<lambda>(label, images). Inr (h label images)) xs
     = Inr (map (\<lambda>(label, images). h label images) xs)"
  by (induction xs) auto

lemma sampled_triples_first:
  "sampled_triples (\<lambda>lst. Inr (slice_to lst n)) st =
     Inr (concat (map (\<lambda>(label, images).
            map (\<lambda>(dirname, fname). (label, fname, path_join dirname fname))
              (slice_to (sort images) n))
          (ims_by_label st)))"
  by (simp add: sampled_triples_def map_err_labels)

lemma names_of_triples:
  "map (fst \<circ> snd)
     (concat (map (\<lambda>(label, images).
                map (\<lambda>(dirname, fname). (label, fname, path_join dirname fname)) (k images))
              xs))
   = concat (map (\<lambda>(label, images). map snd (k images)) xs)"
proof (induction xs)
  case Nil
  show ?case by simp
next
  case (Cons x xs)
  obtain label images where x: "x = (label, images)" by (cases x) auto
  have "map (fst \<circ> snd) (map (\<lambda>(dirname, fname). (label, fname, path_join dirname fname)) (k images))
      = map snd (k images)"
    by (induction "k images") (simp_all add: case_prod_beta)
  with Cons show ?case by (simp add: x)
qed

lemma sort_one_directory:
  assumes "one_directory images"
  shows "map snd (sort images) = sort (map snd images)"
proof (cases images)
  case Nil
  then show ?thesis by simp
next
  case (Cons im rest)
  with assms have "\<forall>x\<in>set images. fst x = fst im"
    unfolding one_directory_def by simp
  then have s: "sort images = map (Pair (fst im)) (sort (map snd images))"
    by (rule sort_same_dir)
  have "map snd (map (Pair (fst im)) (sort (map snd images))) = sort (map snd images)"
    by (simp add: comp_def)
  then show ?thesis by (simp only: s)
qed

text \<open>
  C6, amended. With a cap \<open>N\<close> and the sampler \<open>first\<close>, the selection fails as the
  resolution fails, and otherwise takes, label by label, the label's (directory,
  filename) pairs sorted as pairs, the directory first, and of them \<^verbatim>\<open>lst[:N]\<close>:
  the first \<open>N\<close> pairs when \<open>N\<close> is not negative. When the images of every label lie
  in one directory, the names selected are, label by label, the \<open>N\<close> smallest
  filenames of the label: three of ten for a cap of three.
\<close>

theorem first_sampler:
  "(case resolve (listdir E) extensions dirs of
      Inl e \<Rightarrow> select_paths E dirs (Some n) ''first'' extensions = Inl e
    | Inr st \<Rightarrow>
        select_paths E dirs (Some n) ''first'' extensions
          = unzip3 (concat (map (\<lambda>(label, images).
                      map (\<lambda>(dirname, fname). (label, fname, path_join dirname fname))
                        (slice_to (sort images) n))
                    (ims_by_label st)))
        \<and> (0 \<le> n \<longrightarrow>
             select_paths E dirs (Some n) ''first'' extensions
               = unzip3 (concat (map (\<lambda>(label, images).
                           map (\<lambda>(dirname, fname). (label, fname, path_join dirname fname))
                             (take (nat n) (sort images)))
                         (ims_by_label st))))
        \<and> (0 \<le> n \<longrightarrow> (\<forall>(label, images)\<in>set (ims_by_label st). one_directory images) \<longrightarrow>
             (\<forall>ls ns ps.
                select_paths E dirs (Some n) ''first'' extensions = Inr (ls, ns, ps) \<longrightarrow>
                ns = concat (map (\<lambda>(label, images). take (nat n) (sort (map snd images)))
                               (ims_by_label st)))))"
proof (cases "resolve (listdir E) extensions dirs")
  case (Inl e)
  then show ?thesis by (simp add: select_paths_def)
next
  case (Inr st)
  let ?triples = "\<lambda>k. concat (map (\<lambda>(label, images).
                      map (\<lambda>(dirname, fname). (label, fname, path_join dirname fname))
                        (k (sort images)))
                    (ims_by_label st))"
  have sel: "select_paths E dirs (Some n) ''first'' extensions = unzip3 (?triples (\<lambda>lst. slice_to lst n))"
    by (simp add: select_paths_def Inr choose_sample_first sampled_triples_first)
  have tk: "slice_to lst n = take (nat n) lst" if "0 \<le> n" for lst :: "(string \<times> string) list"
    using that by (simp add: slice_to_def)
  have names: "ns = concat (map (\<lambda>(label, images). take (nat n) (sort (map snd images))) (ims_by_label st))"
    if n: "0 \<le> n" and one: "\<forall>(label, images)\<in>set (ims_by_label st). one_directory images"
      and res: "select_paths E dirs (Some n) ''first'' extensions = Inr (ls, ns, ps)" for ls ns ps
  proof -
    from res sel have "unzip3 (?triples (\<lambda>lst. slice_to lst n)) = Inr (ls, ns, ps)"
      by (simp only:)
    then have "ns = map (fst \<circ> snd) (?triples (\<lambda>lst. slice_to lst n))"
      unfolding unzip3_def by (simp split: if_splits)
    also have "\<dots> = concat (map (\<lambda>(label, images). map snd (slice_to (sort images) n)) (ims_by_label st))"
      by (rule names_of_triples)
    also have "\<dots> = concat (map (\<lambda>(label, images). take (nat n) (sort (map snd images))) (ims_by_label st))"
    proof -
      have "map snd (slice_to (sort images) n) = take (nat n) (sort (map snd images))"
        if "(label, images) \<in> set (ims_by_label st)" for label images
      proof -
        from one that have "one_directory images" by auto
        then have "map snd (sort images) = sort (map snd images)" by (rule sort_one_directory)
        then show ?thesis by (simp only: tk [OF n] take_map [symmetric])
      qed
      then have "map (\<lambda>(label, images). map snd (slice_to (sort images) n)) (ims_by_label st)
          = map (\<lambda>(label, images). take (nat n) (sort (map snd images))) (ims_by_label st)"
        by (intro map_cong refl) (simp add: case_prod_beta, metis prod.collapse)
      then show ?thesis by (simp only:)
    qed
    finally show ?thesis .
  qed
  have tksel: "select_paths E dirs (Some n) ''first'' extensions
          = unzip3 (?triples (\<lambda>lst. take (nat n) lst))" if "0 \<le> n"
    using sel that by (simp add: slice_to_def)
  show ?thesis
    unfolding Inr sum.case
  proof (intro conjI impI allI)
    show "select_paths E dirs (Some n) ''first'' extensions = unzip3 (?triples (\<lambda>lst. slice_to lst n))"
      by (rule sel)
  next
    assume "0 \<le> n"
    then show "select_paths E dirs (Some n) ''first'' extensions
          = unzip3 (?triples (\<lambda>lst. take (nat n) lst))"
      by (rule tksel)
  next
    fix ls ns ps
    assume "0 \<le> n" "\<forall>(label, images)\<in>set (ims_by_label st). one_directory images"
      "select_paths E dirs (Some n) ''first'' extensions = Inr (ls, ns, ps)"
    then show "ns = concat (map (\<lambda>(label, images). take (nat n) (sort (map snd images))) (ims_by_label st))"
      by (rule names)
  qed
qed

theorem first_sampler_witness:
  "select_paths ex_env_ten (DirsIter [''L'']) (Some 3) ''first'' DEFAULT_EXTENSIONS
     = Inr ([''L'', ''L'', ''L''], [''a.jpg'', ''b.jpg'', ''c.jpg''],
            [''L/a.jpg'', ''L/b.jpg'', ''L/c.jpg''])
   \<and> take 3 (sort [''h.jpg'', ''c.jpg'', ''j.jpg'', ''a.jpg'', ''e.jpg'', ''b.jpg'', ''g.jpg'',
                     ''d.jpg'', ''i.jpg'', ''f.jpg''])
       = [''a.jpg'', ''b.jpg'', ''c.jpg'']"
proof -
  let ?names = "[''h.jpg'', ''c.jpg'', ''j.jpg'', ''a.jpg'', ''e.jpg'', ''b.jpg'', ''g.jpg'',
                 ''d.jpg'', ''i.jpg'', ''f.jpg'']"
  have r: "(case resolve (listdir ex_env_ten) DEFAULT_EXTENSIONS (DirsIter [''L'']) of
              Inl e \<Rightarrow> False
            | Inr st \<Rightarrow> ims_by_label st = [(''L'', map (Pair ''L'') ?names)])"
    by code_simp
  then obtain st where st: "resolve (listdir ex_env_ten) DEFAULT_EXTENSIONS (DirsIter [''L'']) = Inr st"
    and ims: "ims_by_label st = [(''L'', map (Pair ''L'') ?names)]"
    by (cases "resolve (listdir ex_env_ten) DEFAULT_EXTENSIONS (DirsIter [''L''])") simp_all
  have one: "\<forall>(label, images)\<in>set (ims_by_label st). one_directory images"
    by (simp add: ims one_directory_def)
  have run: "select_paths ex_env_ten (DirsIter [''L'']) (Some 3) ''first'' DEFAULT_EXTENSIONS
     = Inr ([''L'', ''L'', ''L''], [''a.jpg'', ''b.jpg'', ''c.jpg''],
            [''L/a.jpg'', ''L/b.jpg'', ''L/c.jpg''])"
    by code_simp
  have n: "(0::int) \<le> 3" by simp
  note th = first_sampler [where E = ex_env_ten and extensions = DEFAULT_EXTENSIONS
      and dirs = "DirsIter [''L'']" and n = 3, unfolded st sum.case]
  from th n one run
  have "[''a.jpg'', ''b.jpg'', ''c.jpg''] =
      concat (map (\<lambda>(label, images). take (nat 3) (sort (map snd images))) (ims_by_label st))"
    by blast
  also have "\<dots> = take 3 (sort (map snd (map (Pair ''L'') ?names)))"
    by (simp add: ims)
  also have "map snd (map (Pair ''L'') ?names) = ?names"
    by simp
  finally have "take 3 (sort ?names) = [''a.jpg'', ''b.jpg'', ''c.jpg'']"
    by (rule sym)
  with run show ?thesis by (rule conjI)
qed

subsection \<open>Writing never overwrites\<close>

lemma h5_extends_refl: "h5_extends f f"
  by (simp add: h5_extends_def)

lemma h5_extends_trans: "h5_extends f g \<Longrightarrow> h5_extends g h \<Longrightarrow> h5_extends f h"
  by (simp add: h5_extends_def)

lemma h5_extends_snoc: "h5_lookup f p = None \<Longrightarrow> h5_extends f (f @ [(p, obj)])"
  by (auto simp: h5_extends_def h5_lookup_def map_add_def split: if_splits option.splits)

lemma make_groups_extends:
  "make_groups f base cs = Inr f' \<Longrightarrow> h5_extends f f'"
proof (induction cs arbitrary: f base)
  case Nil
  then show ?case by (simp add: h5_extends_refl)
next
  case (Cons c cs)
  show ?case
  proof (cases "h5_lookup f (base @ [c])")
    case None
    with Cons.prems have "make_groups (f @ [(base @ [c], H5Group)]) (base @ [c]) cs = Inr f'"
      by simp
    then have "h5_extends (f @ [(base @ [c], H5Group)]) f'" by (rule Cons.IH)
    with h5_extends_snoc [OF None] show ?thesis by (rule h5_extends_trans)
  next
    case (Some obj)
    with Cons.prems Cons.IH show ?thesis by (cases obj) auto
  qed
qed

lemma make_groups_lookup:
  "make_groups f base cs = Inr f' \<Longrightarrow> h5_lookup f' (base @ cs) = Some H5Group \<or> cs = []"
proof (induction cs arbitrary: f base)
  case Nil
  then show ?case by simp
next
  case (Cons c cs)
  show ?case
  proof (cases "h5_lookup f (base @ [c])")
    case None
    with Cons.prems have mg: "make_groups (f @ [(base @ [c], H5Group)]) (base @ [c]) cs = Inr f'"
      by simp
    have here: "h5_lookup (f @ [(base @ [c], H5Group)]) (base @ [c]) = Some H5Group"
      using None by (auto simp: h5_lookup_def map_add_def split: option.splits)
    from Cons.IH [OF mg] make_groups_extends [OF mg] here show ?thesis
      by (auto simp: h5_extends_def)
  next
    case (Some obj)
    show ?thesis
    proof (cases obj)
      case H5Group
      with Some Cons.prems have mg: "make_groups f (base @ [c]) cs = Inr f'" by simp
      from Cons.IH [OF mg] make_groups_extends [OF mg] Some H5Group show ?thesis
        by (auto simp: h5_extends_def)
    next
      case (H5Dataset v)
      with Some Cons.prems show ?thesis by simp
    qed
  qed
qed

lemma create_group_Inr:
  assumes "create_group f g name = Inr (f', p)"
  shows "h5_extends f f' \<and> p = h5_resolve g name \<and> h5_lookup f' p = Some H5Group"
proof -
  from assms have p: "p = h5_resolve g name" and mg: "make_groups f [] p = Inr f'"
    by (auto simp: create_group_def Let_def split: if_splits sum.splits)
  from make_groups_lookup [OF mg] have "h5_lookup f' p = Some H5Group"
    by (auto simp: h5_lookup_def)
  with make_groups_extends [OF mg] p show ?thesis by simp
qed

lemma create_group_exists:
  "h5_lookup f (h5_resolve g name) \<noteq> None \<Longrightarrow> create_group f g name = Inl ValueError"
  by (simp add: create_group_def Let_def)

lemma require_group_Inr:
  assumes "require_group f g name = Inr (f', p)"
  shows "h5_extends f f' \<and> p = h5_resolve g name"
proof (cases "h5_lookup f (h5_resolve g name)")
  case None
  with assms have "create_group f g name = Inr (f', p)"
    by (simp add: require_group_def Let_def split: if_splits)
  then show ?thesis using create_group_Inr by blast
next
  case (Some obj)
  with assms show ?thesis
    by (cases obj) (auto simp: require_group_def Let_def h5_extends_refl split: if_splits)
qed

lemma set_item_Inr: "set_item f g key v = Inr f' \<Longrightarrow> h5_extends f f'"
  by (auto simp: set_item_def h5_extends_snoc split: if_splits)

lemma write_leaf_extends: "h5_extends f (fst (write_leaf f leaf))"
proof -
  obtain label name fr de where leaf: "leaf = (label, name, fr, de)" by (cases leaf) auto
  show ?thesis
    unfolding leaf write_leaf_def
    by (auto split: sum.splits prod.splits
        dest!: require_group_Inr create_group_Inr set_item_Inr
        intro: h5_extends_refl h5_extends_trans)
qed

lemma write_leaf_done:
  assumes "write_leaf f leaf = (f', None)"
  shows "h5_lookup f' (leaf_path (leaf_key leaf)) \<noteq> None"
proof -
  obtain label name fr de where leaf: "leaf = (label, name, fr, de)" by (cases leaf) auto
  from assms obtain f1 lg f2 g f3 where
    rg: "require_group f [] label = Inr (f1, lg)" and
    cg: "create_group f1 lg name = Inr (f2, g)" and
    s1: "set_item f2 g ''frames'' fr = Inr f3" and
    s2: "set_item f3 g ''features'' de = Inr f'"
    by (auto simp: leaf write_leaf_def split: sum.splits prod.splits)
  from require_group_Inr [OF rg] have lg: "lg = h5_resolve [] label" by simp
  from create_group_Inr [OF cg] have "h5_lookup f2 (h5_resolve lg name) = Some H5Group" by auto
  moreover from set_item_Inr [OF s1] set_item_Inr [OF s2] have "h5_extends f2 f'"
    by (rule h5_extends_trans)
  ultimately show ?thesis
    by (simp add: h5_extends_def leaf leaf_key_def leaf_path_def lg)
qed

lemma write_leaf_again:
  assumes "h5_lookup f (leaf_path (leaf_key leaf)) \<noteq> None"
  shows "snd (write_leaf f leaf) \<noteq> None"
proof -
  obtain label name fr de where leaf: "leaf = (label, name, fr, de)" by (cases leaf) auto
  show ?thesis
  proof (cases "require_group f [] label")
    case (Inl e)
    then show ?thesis by (simp add: leaf write_leaf_def)
  next
    case (Inr r)
    obtain f1 lg where r: "r = (f1, lg)" by (cases r) auto
    from require_group_Inr [OF Inr [unfolded r]] have ext: "h5_extends f f1" and lg: "lg = h5_resolve [] label"
      by simp_all
    from assms ext have "h5_lookup f1 (h5_resolve lg name) \<noteq> None"
      by (auto simp: h5_extends_def leaf leaf_key_def leaf_path_def lg)
    then have "create_group f1 lg name = Inl ValueError" by (rule create_group_exists)
    with Inr r show ?thesis by (simp add: leaf write_leaf_def)
  qed
qed

lemma write_leaves_extends: "h5_extends f (fst (write_leaves f leaves))"
proof (induction leaves arbitrary: f)
  case Nil
  show ?case by (simp add: h5_extends_refl)
next
  case (Cons leaf leaves)
  obtain f' r where wl: "write_leaf f leaf = (f', r)" by (cases "write_leaf f leaf") auto
  with write_leaf_extends [of f leaf] have e: "h5_extends f f'" by simp
  show ?case
  proof (cases r)
    case None
    with wl Cons.IH [of f'] e show ?thesis by (auto intro: h5_extends_trans)
  next
    case (Some err)
    with wl e show ?thesis by simp
  qed
qed

lemma write_leaves_append:
  "write_leaves f (xs @ ys) =
     (case write_leaves f xs of (f', Some e) \<Rightarrow> (f', Some e) | (f', None) \<Rightarrow> write_leaves f' ys)"
  by (induction xs arbitrary: f) (auto split: prod.splits option.splits)

lemma write_leaves_present:
  assumes "h5_lookup f (leaf_path k) \<noteq> None" and "k \<in> leaf_key ` set leaves"
  shows "snd (write_leaves f leaves) \<noteq> None"
  using assms
proof (induction leaves arbitrary: f)
  case Nil
  then show ?case by simp
next
  case (Cons leaf leaves)
  obtain f' r where wl: "write_leaf f leaf = (f', r)" by (cases "write_leaf f leaf") auto
  show ?case
  proof (cases r)
    case (Some err)
    with wl show ?thesis by simp
  next
    case None
    with wl write_leaf_again [of f leaf] Cons.prems have "k \<noteq> leaf_key leaf" by auto
    with Cons.prems have mem: "k \<in> leaf_key ` set leaves" by auto
    from write_leaf_extends [of f leaf] wl Cons.prems(1) have "h5_lookup f' (leaf_path k) \<noteq> None"
      by (auto simp: h5_extends_def)
    from Cons.IH [OF this mem] wl None show ?thesis by simp
  qed
qed

lemma write_leaves_duplicate:
  assumes "\<not> distinct (map leaf_key leaves)"
  shows "snd (write_leaves f leaves) \<noteq> None"
  using assms
proof (induction leaves arbitrary: f)
  case Nil
  then show ?case by simp
next
  case (Cons leaf leaves)
  obtain f' r where wl: "write_leaf f leaf = (f', r)" by (cases "write_leaf f leaf") auto
  show ?case
  proof (cases r)
    case (Some err)
    with wl show ?thesis by simp
  next
    case None
    show ?thesis
    proof (cases "leaf_key leaf \<in> leaf_key ` set leaves")
      case True
      from write_leaf_done wl None have "h5_lookup f' (leaf_path (leaf_key leaf)) \<noteq> None" by blast
      from write_leaves_present [OF this True] wl None show ?thesis by simp
    next
      case False
      with Cons.prems have "\<not> distinct (map leaf_key leaves)" by simp
      from Cons.IH [OF this] wl None show ?thesis by simp
    qed
  qed
qed

lemma izip4_take_leaves: "izip4 (take_leaves k F) = take k (izip4 F)"
  by (simp add: izip4_def take_leaves_def take_zip)

text \<open>
  C8. When the archive names a (label, image name) pair twice, \<^verbatim>\<open>save_features\<close>
  ends with an exception, whatever the file held before; and nothing written is
  overwritten: every object that is in the file after the first \<open>k\<close> leaves of
  the archive, for any \<open>k\<close>, is in the file, unchanged, when the write ends.
\<close>

theorem save_features_duplicate_leaf:
  assumes "\<not> distinct (map leaf_key (izip4 F))"
  shows "(\<exists>e. snd (save_features file F kwattrs) = Some e)
         \<and> h5_extends (links (fst (save_features file (take_leaves k F) kwattrs)))
              (links (fst (save_features file F kwattrs)))"
proof -
  have "snd (write_leaves (links file) (izip4 F)) \<noteq> None"
    using assms by (rule write_leaves_duplicate)
  then have err: "\<exists>e. snd (save_features file F kwattrs) = Some e"
    by (auto simp: save_features_def split: prod.splits option.splits)
  have l: "links (fst (save_features file G kwattrs)) = fst (write_leaves (links file) (izip4 G))" for G
    by (auto simp: save_features_def split: prod.splits option.splits)
  have "izip4 F = take k (izip4 F) @ drop k (izip4 F)" by simp
  then have "write_leaves (links file) (izip4 F) =
     (case write_leaves (links file) (take k (izip4 F)) of
        (f', Some e) \<Rightarrow> (f', Some e) | (f', None) \<Rightarrow> write_leaves f' (drop k (izip4 F)))"
    by (metis write_leaves_append)
  then have "h5_extends (fst (write_leaves (links file) (take k (izip4 F))))
     (fst (write_leaves (links file) (izip4 F)))"
    by (auto simp: h5_extends_refl write_leaves_extends split: prod.splits option.splits)
  with err show ?thesis by (simp add: l izip4_take_leaves)
qed

theorem save_features_duplicate_leaf_witness:
  "snd (save_features h5_empty ex_archive_dup []) = Some ValueError
   \<and> h5_lookup (links (fst (save_features h5_empty ex_archive_dup []))) [''a'', ''i1'', ''frames'']
       = Some (H5Dataset [[3]])"
proof -
  have d: "\<not> distinct (map leaf_key (izip4 ex_archive_dup))"
    by code_simp
  have first: "h5_lookup (links (fst (save_features h5_empty (take_leaves 1 ex_archive_dup) [])))
      [''a'', ''i1'', ''frames''] = Some (H5Dataset [[3]])"
    by code_simp
  have err: "snd (save_features h5_empty ex_archive_dup []) = Some ValueError"
    by code_simp
  from save_features_duplicate_leaf [OF d, of h5_empty "[]" 1] first
  have "h5_lookup (links (fst (save_features h5_empty ex_archive_dup []))) [''a'', ''i1'', ''frames'']
      = Some (H5Dataset [[3]])"
    by (simp add: h5_extends_def)
  with err show ?thesis by simp
qed

subsection \<open>Resolution records every qualifying entry once\<close>

lemma dict_set_diag:
  "dict_set d d (map (\<lambda>x. (x, x)) xs) = map (\<lambda>x. (x, x)) (if d \<in> set xs then xs else xs @ [d])"
  by (induction xs) auto

lemma py_dict_snoc: "py_dict (ps @ [(k, v)]) = dict_set k v (py_dict ps)"
  by (simp add: py_dict_def)

lemma first_occurrences_snoc:
  "first_occurrences (xs @ [x]) =
     (if x \<in> set xs then first_occurrences xs else first_occurrences xs @ [x])"
  by (simp add: first_occurrences_def)

lemma set_first_occurrences: "set (first_occurrences xs) = set xs"
  by (simp add: first_occurrences_def)

lemma distinct_first_occurrences: "distinct (first_occurrences xs)"
  by (simp add: first_occurrences_def)

lemma py_dict_diag:
  "py_dict (map (\<lambda>d. (d, d)) ds) = map (\<lambda>d. (d, d)) (first_occurrences ds)"
proof (induction ds rule: rev_induct)
  case Nil
  show ?case by (simp add: py_dict_def first_occurrences_def)
next
  case (snoc d ds)
  have "py_dict (map (\<lambda>d. (d, d)) (ds @ [d])) = dict_set d d (py_dict (map (\<lambda>d. (d, d)) ds))"
    using py_dict_snoc [of "map (\<lambda>d. (d, d)) ds" d d] by simp
  then show ?case
    by (simp add: snoc.IH dict_set_diag first_occurrences_snoc set_first_occurrences)
qed

lemma getitem_rsplit_dot:
  "py_getitem (rsplit_dot fname) 1 =
     (if CHR ''.'' \<in> set fname then Inr (rsplit_dot fname ! 1) else Inl IndexError)"
  by (simp add: py_getitem_def rsplit_dot_def Let_def)

lemma add_files_Cons:
  "add_files extensions dirname label (fname # rest) st =
     (if CHR ''.'' \<notin> set fname then Inl IndexError
      else if qualifies extensions fname then
        if fname \<in> seen_names st label then Inl (DuplicateImage fname label)
        else add_files extensions dirname label rest
               \<lparr>ims_by_label = dd_append label (dirname, fname) (ims_by_label st),
                seen_names = (seen_names st)(label := insert fname (seen_names st label))\<rparr>
      else add_files extensions dirname label rest st)"
  by (simp add: getitem_rsplit_dot qualifies_def)

declare add_files.simps(2) [simp del]

lemma mset_dd_append:
  "mset (concat (map (\<lambda>(label, ims). map (Pair label) ims) (dd_append l (d, f) m)))
   = add_mset (l, d, f) (mset (concat (map (\<lambda>(label, ims). map (Pair label) ims) m)))"
  by (induction m) auto

lemma records_append:
  "mset (records \<lparr>ims_by_label = dd_append l (d, f) (ims_by_label st), seen_names = s\<rparr>)
     = add_mset (l, d, f) (mset (records st))"
  by (simp add: records_def mset_dd_append)

lemma seen_ok_step:
  assumes "seen_ok st"
  shows "seen_ok \<lparr>ims_by_label = dd_append l (d, f) (ims_by_label st),
                  seen_names = (seen_names st)(l := insert f (seen_names st l))\<rparr>"
proof -
  let ?st' = "\<lparr>ims_by_label = dd_append l (d, f) (ims_by_label st),
                  seen_names = (seen_names st)(l := insert f (seen_names st l))\<rparr>"
  have "set (records ?st') = insert (l, d, f) (set (records st))"
    using records_append [of l d f st "(seen_names st)(l := insert f (seen_names st l))"]
    by (metis set_mset_add_mset_insert set_mset_mset)
  with assms show ?thesis
    by (auto simp: seen_ok_def identity_def image_iff)
qed

lemma add_files_Inr:
  assumes "add_files extensions dirname label fnames st = Inr st'" and "seen_ok st"
  shows "seen_ok st'
     \<and> mset (records st') = mset (records st)
          + mset (map (\<lambda>fname. (label, dirname, fname)) (filter (qualifies extensions) fnames))
     \<and> distinct (filter (qualifies extensions) fnames)
     \<and> (\<forall>fname\<in>set fnames. qualifies extensions fname \<longrightarrow> fname \<notin> seen_names st label)"
  using assms
proof (induction fnames arbitrary: st)
  case Nil
  then show ?case by simp
next
  case (Cons fname rest)
  from Cons.prems(1) have dot: "CHR ''.'' \<in> set fname"
    by (auto simp: add_files_Cons split: if_splits)
  show ?case
  proof (cases "qualifies extensions fname")
    case False
    with Cons.prems dot have "add_files extensions dirname label rest st = Inr st'"
      by (simp add: add_files_Cons)
    from Cons.IH [OF this Cons.prems(2)] False show ?thesis by simp
  next
    case True
    let ?st1 = "\<lparr>ims_by_label = dd_append label (dirname, fname) (ims_by_label st),
                seen_names = (seen_names st)(label := insert fname (seen_names st label))\<rparr>"
    from Cons.prems True dot have new: "fname \<notin> seen_names st label"
      and rest: "add_files extensions dirname label rest ?st1 = Inr st'"
      by (auto simp: add_files_Cons split: if_splits)
    have ok1: "seen_ok ?st1" using Cons.prems(2) by (rule seen_ok_step)
    from Cons.IH [OF rest ok1] True new show ?thesis
      by (auto simp: records_append)
  qed
qed

lemma add_files_Dup:
  assumes "add_files extensions dirname label fnames st = Inl (DuplicateImage f l)"
  shows "\<not> distinct (filter (qualifies extensions) fnames)
         \<or> (\<exists>fname\<in>set fnames. qualifies extensions fname \<and> fname \<in> seen_names st label)"
  using assms
proof (induction fnames arbitrary: st)
  case Nil
  then show ?case by simp
next
  case (Cons fname rest)
  from Cons.prems have dot: "CHR ''.'' \<in> set fname"
    by (auto simp: add_files_Cons split: if_splits)
  show ?case
  proof (cases "qualifies extensions fname")
    case False
    with Cons.prems dot have "add_files extensions dirname label rest st = Inl (DuplicateImage f l)"
      by (simp add: add_files_Cons)
    from Cons.IH [OF this] False show ?thesis by auto
  next
    case True
    show ?thesis
    proof (cases "fname \<in> seen_names st label")
      case True
      with \<open>qualifies extensions fname\<close> show ?thesis by auto
    next
      case False
      let ?st1 = "\<lparr>ims_by_label = dd_append label (dirname, fname) (ims_by_label st),
                seen_names = (seen_names st)(label := insert fname (seen_names st label))\<rparr>"
      from Cons.prems True False dot
      have "add_files extensions dirname label rest ?st1 = Inl (DuplicateImage f l)"
        by (simp add: add_files_Cons)
      from Cons.IH [OF this] True show ?thesis
        by (auto split: if_splits)
    qed
  qed
qed

lemma add_files_identities:
  assumes "add_files extensions dirname label fnames st = Inr st'" and "seen_ok st"
  shows "distinct (map identity (map (\<lambda>fname. (label, dirname, fname)) (filter (qualifies extensions) fnames)))
     \<and> identity ` set (map (\<lambda>fname. (label, dirname, fname)) (filter (qualifies extensions) fnames))
         \<inter> identity ` set (records st) = {}"
proof -
  from add_files_Inr [OF assms] have d: "distinct (filter (qualifies extensions) fnames)"
    and n: "\<forall>fname\<in>set fnames. qualifies extensions fname \<longrightarrow> fname \<notin> seen_names st label"
    by simp_all
  have "distinct (map identity (map (\<lambda>fname. (label, dirname, fname)) (filter (qualifies extensions) fnames)))"
    using d by (simp add: identity_def comp_def distinct_map inj_on_def)
  moreover have "identity ` set (map (\<lambda>fname. (label, dirname, fname)) (filter (qualifies extensions) fnames))
         \<inter> identity ` set (records st) = {}"
  proof -
    have "(label, fname) \<notin> identity ` set (records st)"
      if "fname \<in> set fnames" "qualifies extensions fname" for fname
      using that n assms(2) by (auto simp: seen_ok_def)
    moreover have "identity ` set (map (\<lambda>fname. (label, dirname, fname)) (filter (qualifies extensions) fnames))
        = Pair label ` {fname \<in> set fnames. qualifies extensions fname}"
      by (auto simp: identity_def image_iff)
    ultimately show ?thesis by auto
  qed
  ultimately show ?thesis by (rule conjI)
qed

lemma qualifying_Cons:
  "qualifying ld extensions ((dirname, label) # items) =
     map (\<lambda>fname. (label, dirname, fname)) (filter (qualifies extensions) (entries ld dirname))
     @ qualifying ld extensions items"
  by (simp add: qualifying_def)

lemma scan_dirs_Inr:
  assumes "scan_dirs ld extensions items st = Inr st'" and "seen_ok st"
  shows "seen_ok st'
     \<and> mset (records st') = mset (records st) + mset (qualifying ld extensions items)
     \<and> distinct (map identity (qualifying ld extensions items))
     \<and> identity ` set (qualifying ld extensions items) \<inter> identity ` set (records st) = {}"
  using assms
proof (induction items arbitrary: st)
  case Nil
  then show ?case by (simp add: qualifying_def)
next
  case (Cons item items)
  obtain dirname label where item: "item = (dirname, label)" by (cases item) auto
  from Cons.prems(1) obtain fnames st1 where ld: "ld dirname = Some fnames"
    and af: "add_files extensions dirname label fnames st = Inr st1"
    and sc: "scan_dirs ld extensions items st1 = Inr st'"
    by (auto simp: item split: option.splits sum.splits)
  let ?Q1 = "map (\<lambda>fname. (label, dirname, fname)) (filter (qualifies extensions) fnames)"
  let ?Q2 = "qualifying ld extensions items"
  from add_files_Inr [OF af Cons.prems(2)] have ok1: "seen_ok st1"
    and m1: "mset (records st1) = mset (records st) + mset ?Q1"
    by simp_all
  from add_files_identities [OF af Cons.prems(2)] have d1: "distinct (map identity ?Q1)"
    and i1: "identity ` set ?Q1 \<inter> identity ` set (records st) = {}"
    by simp_all
  from Cons.IH [OF sc ok1] have ok': "seen_ok st'"
    and m2: "mset (records st') = mset (records st1) + mset ?Q2"
    and d2: "distinct (map identity ?Q2)"
    and i2: "identity ` set ?Q2 \<inter> identity ` set (records st1) = {}"
    by simp_all
  have s1: "set (records st1) = set (records st) \<union> set ?Q1"
    using m1 by (metis set_mset_mset set_mset_union)
  have q: "qualifying ld extensions (item # items) = ?Q1 @ ?Q2"
    by (simp add: item qualifying_Cons entries_def ld)
  have "distinct (map identity (?Q1 @ ?Q2))"
    using d1 d2 i2 s1 by (auto simp: image_Un)
  moreover have "identity ` set (?Q1 @ ?Q2) \<inter> identity ` set (records st) = {}"
    using i1 i2 s1 by (auto simp: image_Un)
  moreover have "mset (records st') = mset (records st) + mset (?Q1 @ ?Q2)"
    using m1 m2 by simp
  ultimately show ?case using ok' by (simp only: q)
qed

lemma scan_dirs_Dup:
  assumes "scan_dirs ld extensions items st = Inl (DuplicateImage f l)" and "seen_ok st"
  shows "\<not> (distinct (map identity (qualifying ld extensions items))
            \<and> identity ` set (qualifying ld extensions items) \<inter> identity ` set (records st) = {})"
  using assms
proof (induction items arbitrary: st)
  case Nil
  then show ?case by simp
next
  case (Cons item items)
  obtain dirname label where item: "item = (dirname, label)" by (cases item) auto
  from Cons.prems(1) obtain fnames where ld: "ld dirname = Some fnames"
    by (auto simp: item split: option.splits)
  let ?Q1 = "map (\<lambda>fname. (label, dirname, fname)) (filter (qualifies extensions) fnames)"
  let ?Q2 = "qualifying ld extensions items"
  have q: "qualifying ld extensions (item # items) = ?Q1 @ ?Q2"
    by (simp add: item qualifying_Cons entries_def ld)
  have idq: "map identity ?Q1 = map (Pair label) (filter (qualifies extensions) fnames)"
    by (simp add: identity_def comp_def)
  show ?case
  proof (cases "add_files extensions dirname label fnames st")
    case (Inl e)
    with Cons.prems(1) ld have "add_files extensions dirname label fnames st = Inl (DuplicateImage f l)"
      by (simp add: item)
    from add_files_Dup [OF this]
    have "\<not> distinct (filter (qualifies extensions) fnames)
         \<or> (\<exists>fname\<in>set fnames. qualifies extensions fname \<and> fname \<in> seen_names st label)" .
    then show ?thesis
    proof
      assume "\<not> distinct (filter (qualifies extensions) fnames)"
      then have "\<not> distinct (map identity ?Q1)"
        by (simp add: idq distinct_map)
      then show ?thesis by (simp only: q) simp
    next
      assume "\<exists>fname\<in>set fnames. qualifies extensions fname \<and> fname \<in> seen_names st label"
      then obtain fname where fn: "fname \<in> set fnames" "qualifies extensions fname"
        "fname \<in> seen_names st label" by blast
      then have "(label, fname) \<in> identity ` set (records st)"
        using Cons.prems(2) by (simp add: seen_ok_def)
      moreover have "(label, fname) \<in> identity ` set ?Q1"
        using fn by (auto simp: identity_def image_iff)
      ultimately have "identity ` set (?Q1 @ ?Q2) \<inter> identity ` set (records st) \<noteq> {}"
        by auto
      then show ?thesis by (simp only: q) simp
    qed
  next
    case (Inr st1)
    with Cons.prems(1) ld have sc: "scan_dirs ld extensions items st1 = Inl (DuplicateImage f l)"
      by (simp add: item)
    from add_files_Inr [OF Inr Cons.prems(2)] have ok1: "seen_ok st1"
      and m1: "mset (records st1) = mset (records st) + mset ?Q1"
      by simp_all
    have s1: "set (records st1) = set (records st) \<union> set ?Q1"
      using m1 by (metis set_mset_mset set_mset_union)
    from Cons.IH [OF sc ok1]
    have "\<not> (distinct (map identity ?Q2)
            \<and> identity ` set ?Q2 \<inter> identity ` set (records st1) = {})" .
    then have "\<not> (distinct (map identity (?Q1 @ ?Q2))
            \<and> identity ` set (?Q1 @ ?Q2) \<inter> identity ` set (records st) = {})"
      using s1 by (auto simp: image_Un)
    then show ?thesis unfolding q .
  qed
qed

lemma seen_ok_init: "seen_ok resolved_init"
  by (simp add: seen_ok_def resolved_init_def records_def)

lemma records_init: "records resolved_init = []"
  by (simp add: resolved_init_def records_def)

lemma resolve_Inr:
  assumes "resolve ld extensions dirs = Inr st"
  shows "mset (records st) = mset (qualifying ld extensions (dirs_items dirs))
         \<and> distinct (map identity (qualifying ld extensions (dirs_items dirs)))"
  using scan_dirs_Inr [OF assms [unfolded resolve_def] seen_ok_init]
  by (simp add: records_init)

lemma resolve_Dup:
  assumes "resolve ld extensions dirs = Inl (DuplicateImage f l)"
  shows "\<not> distinct (map identity (qualifying ld extensions (dirs_items dirs)))"
  using scan_dirs_Dup [OF assms [unfolded resolve_def] seen_ok_init]
  by (simp add: records_init)

lemma set_qualifying:
  "set (qualifying ld extensions items) =
     {(label, dirname, fname). (dirname, label) \<in> set items \<and> fname \<in> set (entries ld dirname)
        \<and> qualifies extensions fname}"
  by (auto simp: qualifying_def)

lemma qualifying_diag_distinct:
  assumes "distinct ds" and "\<forall>d. distinct (entries ld d)"
  shows "distinct (map identity (qualifying ld extensions (map (\<lambda>d. (d, d)) ds)))"
  using assms(1)
proof (induction ds)
  case Nil
  show ?case by (simp add: qualifying_def)
next
  case (Cons d ds)
  let ?Q1 = "map (\<lambda>fname. (d, d, fname)) (filter (qualifies extensions) (entries ld d))"
  let ?Q2 = "qualifying ld extensions (map (\<lambda>d. (d, d)) ds)"
  have q: "qualifying ld extensions (map (\<lambda>d. (d, d)) (d # ds)) = ?Q1 @ ?Q2"
    by (simp add: qualifying_Cons)
  have d1: "distinct (map identity ?Q1)"
    using assms(2) by (simp add: identity_def comp_def distinct_map inj_on_def)
  have d2: "distinct (map identity ?Q2)"
    using Cons by simp
  have "fst ` set (map identity ?Q1) \<subseteq> {d}"
    by (auto simp: identity_def)
  moreover have "fst ` set (map identity ?Q2) \<subseteq> set ds"
    by (auto simp: identity_def set_qualifying)
  moreover have "d \<notin> set ds" using Cons.prems by simp
  ultimately have disj: "set (map identity ?Q1) \<inter> set (map identity ?Q2) = {}"
    by (auto simp only: image_subset_iff disjoint_iff)
  show ?case
    by (simp only: q map_append distinct_append d1 d2 disj simp_thms)
qed

text \<open>
  C10. Given as an iterable, the directories become one (directory, label) item
  each, at the place of their first occurrence, however often they are listed.
  As a directory listing names each entry once, the resolution never raises the
  duplicate-image error, and when it succeeds every qualifying image of the
  directories is recorded exactly once.
\<close>

theorem iterable_dirs_collapsed:
  assumes "\<forall>d fnames. ld d = Some fnames \<longrightarrow> distinct fnames"
  shows "dirs_items (DirsIter ds) = map (\<lambda>d. (d, d)) (first_occurrences ds)
     \<and> distinct (map fst (dirs_items (DirsIter ds)))
     \<and> resolve ld extensions (DirsIter ds) \<noteq> Inl (DuplicateImage f l)
     \<and> (\<forall>st. resolve ld extensions (DirsIter ds) = Inr st \<longrightarrow>
           distinct (records st)
           \<and> set (records st) =
               {(d, d, fname) | d fname.
                  d \<in> set ds \<and> fname \<in> set (entries ld d) \<and> qualifies extensions fname})"
proof -
  let ?items = "dirs_items (DirsIter ds)"
  let ?Q = "qualifying ld extensions ?items"
  have items: "?items = map (\<lambda>d. (d, d)) (first_occurrences ds)"
    by (simp add: py_dict_diag)
  have keys: "distinct (map fst ?items)"
    by (simp only: items) (simp add: comp_def distinct_first_occurrences)
  have "\<forall>d. distinct (entries ld d)"
    using assms by (auto simp: entries_def split: option.splits)
  then have dq: "distinct (map identity ?Q)"
    by (simp only: items) (rule qualifying_diag_distinct [OF distinct_first_occurrences])
  then have nodup: "resolve ld extensions (DirsIter ds) \<noteq> Inl (DuplicateImage f l)"
    using resolve_Dup by blast
  have "distinct (records st) \<and> set (records st) =
               {(d, d, fname) | d fname.
                  d \<in> set ds \<and> fname \<in> set (entries ld d) \<and> qualifies extensions fname}"
    if "resolve ld extensions (DirsIter ds) = Inr st" for st
  proof -
    from resolve_Inr [OF that] have m: "mset (records st) = mset ?Q" by simp
    from dq have "distinct ?Q" by (simp add: distinct_map)
    with m have "distinct (records st)" by (metis mset_eq_imp_distinct_iff)
    moreover from m have "set (records st) = set ?Q" by (rule mset_eq_setD)
    moreover have "set ?Q = {(d, d, fname) | d fname.
                  d \<in> set ds \<and> fname \<in> set (entries ld d) \<and> qualifies extensions fname}"
      by (simp only: items set_qualifying) (auto simp: set_first_occurrences)
    ultimately show ?thesis by simp
  qed
  with items keys nodup show ?thesis by blast
qed

theorem iterable_dirs_collapsed_witness:
  "dirs_items (DirsIter [''b'', ''a'', ''b'']) = [(''b'', ''b''), (''a'', ''a'')]
   \<and> (case resolve ex_listdir DEFAULT_EXTENSIONS (DirsIter [''b'', ''a'', ''b'']) of
         Inl e \<Rightarrow> Inl e | Inr st \<Rightarrow> Inr (records st))
       = Inr [(''b'', ''b'', ''a.jpg''), (''a'', ''a'', ''z.jpg'')]"
proof -
  have h: "\<forall>d fnames. ex_listdir d = Some fnames \<longrightarrow> distinct fnames"
    by (simp add: ex_listdir_def)
  have "first_occurrences [''b'', ''a'', ''b''] = [''b'', ''a'']"
    by (simp add: first_occurrences_def)
  with iterable_dirs_collapsed [OF h, of "[''b'', ''a'', ''b'']"]
  have "dirs_items (DirsIter [''b'', ''a'', ''b'']) = [(''b'', ''b''), (''a'', ''a'')]"
    by simp
  moreover have "(case resolve ex_listdir DEFAULT_EXTENSIONS (DirsIter [''b'', ''a'', ''b'']) of
         Inl e \<Rightarrow> Inl e | Inr st \<Rightarrow> Inr (records st))
       = Inr [(''b'', ''b'', ''a.jpg''), (''a'', ''a'', ''z.jpg'')]"
    by code_simp
  ultimately show ?thesis by simp
qed

text \<open>When every directory can be listed and every entry has a dot, the
  resolution ends with the duplicate error exactly when an identity occurs twice
  among the qualifying entries, and otherwise returns each of them once.\<close>

lemma add_files_total:
  assumes "\<forall>fname\<in>set fnames. CHR ''.'' \<in> set fname"
  shows "(\<exists>st'. add_files extensions dirname label fnames st = Inr st')
         \<or> (\<exists>f l. add_files extensions dirname label fnames st = Inl (DuplicateImage f l))"
  using assms
  by (induction fnames arbitrary: st) (auto simp: add_files_Cons)

lemma scan_dirs_total:
  assumes "\<forall>(dirname, label)\<in>set items.
             \<exists>fnames. ld dirname = Some fnames \<and> (\<forall>fname\<in>set fnames. CHR ''.'' \<in> set fname)"
  shows "(\<exists>st'. scan_dirs ld extensions items st = Inr st')
         \<or> (\<exists>f l. scan_dirs ld extensions items st = Inl (DuplicateImage f l))"
  using assms
proof (induction items arbitrary: st)
  case Nil
  show ?case by simp
next
  case (Cons item items)
  obtain dirname label where item: "item = (dirname, label)" by (cases item) auto
  from Cons.prems obtain fnames where ld: "ld dirname = Some fnames"
    and dots: "\<forall>fname\<in>set fnames. CHR ''.'' \<in> set fname"
    by (auto simp: item)
  from Cons.prems have rest: "\<forall>(dirname, label)\<in>set items.
             \<exists>fnames. ld dirname = Some fnames \<and> (\<forall>fname\<in>set fnames. CHR ''.'' \<in> set fname)"
    by simp
  from add_files_total [OF dots, of extensions dirname label st] Cons.IH [OF rest]
  show ?case
    by (auto simp: item ld split: sum.splits)
qed

lemma resolve_duplicate_iff:
  assumes "\<forall>(dirname, label)\<in>set (dirs_items dirs).
             \<exists>fnames. ld dirname = Some fnames \<and> (\<forall>fname\<in>set fnames. CHR ''.'' \<in> set fname)"
  shows "(\<exists>f l. resolve ld extensions dirs = Inl (DuplicateImage f l))
           \<longleftrightarrow> \<not> distinct (map identity (qualifying ld extensions (dirs_items dirs)))"
    and "(\<exists>st. resolve ld extensions dirs = Inr st)
           \<longleftrightarrow> distinct (map identity (qualifying ld extensions (dirs_items dirs)))"
    and "resolve ld extensions dirs = Inr st
           \<Longrightarrow> mset (records st) = mset (qualifying ld extensions (dirs_items dirs))"
proof -
  from scan_dirs_total [OF assms, of extensions resolved_init]
  have total: "(\<exists>st'. resolve ld extensions dirs = Inr st')
         \<or> (\<exists>f l. resolve ld extensions dirs = Inl (DuplicateImage f l))"
    by (simp add: resolve_def)
  show "(\<exists>f l. resolve ld extensions dirs = Inl (DuplicateImage f l))
           \<longleftrightarrow> \<not> distinct (map identity (qualifying ld extensions (dirs_items dirs)))"
    using total resolve_Dup resolve_Inr by (metis sum.distinct(1))
  show "(\<exists>st. resolve ld extensions dirs = Inr st)
           \<longleftrightarrow> distinct (map identity (qualifying ld extensions (dirs_items dirs)))"
    using total resolve_Dup resolve_Inr by (metis sum.distinct(1))
  show "resolve ld extensions dirs = Inr st
           \<Longrightarrow> mset (records st) = mset (qualifying ld extensions (dirs_items dirs))"
    using resolve_Inr by blast
qed

end
